theory Spec2Isabelle
  imports Main
begin

section \<open>JavaScript values and strings\<close>

text \<open>
  The cursors widget of anycable-elements (the functions indexedSelector, pathSelector
  and pathLocator, the class Cursor and the custom element AnyCableCursorsElement) is
  embedded function by function. Strings are character lists; a value that is either a
  string or \<open>undefined\<close> is a \<open>jsval\<close>; an exception thrown by the source is a value of
  type \<open>error\<close>. The handler of mousemove is modelled without the \<open>throttle\<close>
  attribute: with it the handler is wrapped by \<open>debounce\<close> of a package that is not
  part of the repository.
\<close>

datatype error = TypeError | SyntaxError

datatype jsval = Undefined | Str string

text \<open>String concatenation converts \<open>undefined\<close> to the text "undefined".\<close>

fun to_string :: "jsval \<Rightarrow> string" where
  "to_string Undefined = ''undefined''"
| "to_string (Str s) = s"

text \<open>Truthiness of a string-or-undefined value: the empty string and \<open>undefined\<close> are falsy.\<close>

fun truthy :: "jsval \<Rightarrow> bool" where
  "truthy Undefined = False"
| "truthy (Str s) = (s \<noteq> [])"

text \<open>\<open>toLowerCase\<close> and \<open>toUpperCase\<close> on the ASCII letters.\<close>

definition toLowerCase_char :: "char \<Rightarrow> char" where
  "toLowerCase_char c =
     (let n = (of_char c :: nat) in if 65 \<le> n \<and> n \<le> 90 then char_of (n + 32) else c)"

definition toUpperCase_char :: "char \<Rightarrow> char" where
  "toUpperCase_char c =
     (let n = (of_char c :: nat) in if 97 \<le> n \<and> n \<le> 122 then char_of (n - 32) else c)"

definition toLowerCase :: "string \<Rightarrow> string" where
  "toLowerCase s = map toLowerCase_char s"

definition toUpperCase :: "string \<Rightarrow> string" where
  "toUpperCase s = map toUpperCase_char s"

text \<open>The decimal text of a number, as a template literal prints the counter \<open>i\<close>.\<close>

function number_toString :: "nat \<Rightarrow> string" where
  "number_toString n =
     (if n < 10 then [''0123456789'' ! n]
      else number_toString (n div 10) @ [''0123456789'' ! (n mod 10)])"
  by pat_completeness auto
termination
  by (relation "measure id") auto

declare number_toString.simps [simp del]

text \<open>
  \<open>s.split(sep)\<close> for a non-empty separator: the pieces between the occurrences of
  \<open>sep\<close>, found from the left without overlap. The result always has at least one piece
  (the split of the empty string is one empty piece). \<open>acc\<close> holds the current piece,
  reversed.
\<close>

function split_from :: "string \<Rightarrow> string \<Rightarrow> string \<Rightarrow> string list" where
  "split_from sep acc [] = [rev acc]"
| "split_from sep acc (c # cs) =
     (if sep \<noteq> [] \<and> take (length sep) (c # cs) = sep
      then rev acc # split_from sep [] (drop (length sep - 1) cs)
      else split_from sep (c # acc) cs)"
  by pat_completeness auto
termination
  by (relation "measure (\<lambda>(sep, acc, s). length s)") auto

definition split :: "string \<Rightarrow> string \<Rightarrow> string list" where
  "split sep s = split_from sep [] s"

section \<open>The document tree\<close>

text \<open>
  A node is an element (its local name, its child nodes, and the child nodes of its open
  shadow root when it hosts one) or a node of another kind (text, comment, doctype), of
  which only the node type matters. A document is the list of its child nodes.

  A node is referred to by the steps that lead to it from the document: the index of a
  child, or the step from a host to its shadow root. The empty reference is the document.
\<close>

datatype node = Element string "node list" "node list option" | NonElement nat

datatype step = Child nat | ShadowRoot

type_synonym ref = "step list"

datatype view = DocumentV "node list" | ShadowRootV "node list" | NodeV node

fun childNodes :: "view \<Rightarrow> node list" where
  "childNodes (DocumentV ns) = ns"
| "childNodes (ShadowRootV ns) = ns"
| "childNodes (NodeV (Element tag cs sh)) = cs"
| "childNodes (NodeV (NonElement t)) = []"

fun descend :: "view \<Rightarrow> step \<Rightarrow> view option" where
  "descend v (Child i) =
     (if i < length (childNodes v) then Some (NodeV (childNodes v ! i)) else None)"
| "descend (NodeV (Element tag cs (Some sh))) ShadowRoot = Some (ShadowRootV sh)"
| "descend v ShadowRoot = None"

fun resolve :: "view \<Rightarrow> ref \<Rightarrow> view option" where
  "resolve v [] = Some v"
| "resolve v (s # r) = (case descend v s of None \<Rightarrow> None | Some v' \<Rightarrow> resolve v' r)"

definition deref :: "node list \<Rightarrow> ref \<Rightarrow> view option" where
  "deref doc r = resolve (DocumentV doc) r"

text \<open>The properties of a node that the source reads.\<close>

definition localName :: "node list \<Rightarrow> ref \<Rightarrow> string option" where
  "localName doc r =
     (case deref doc r of Some (NodeV (Element tag cs sh)) \<Rightarrow> Some tag | _ \<Rightarrow> None)"

definition nodeType :: "node list \<Rightarrow> ref \<Rightarrow> nat option" where
  "nodeType doc r =
     (case deref doc r of
        Some (NodeV (Element tag cs sh)) \<Rightarrow> Some 1
      | Some (NodeV (NonElement t)) \<Rightarrow> Some t
      | Some (DocumentV ns) \<Rightarrow> Some 9
      | Some (ShadowRootV ns) \<Rightarrow> Some 11
      | None \<Rightarrow> None)"

text \<open>
  \<open>tagName\<close> of an HTML element in an HTML document is its local name in upper case
  (the widget lives in an HTML page, and no element carries a namespace prefix).
\<close>

definition tagName :: "node list \<Rightarrow> ref \<Rightarrow> string option" where
  "tagName doc r = map_option toUpperCase (localName doc r)"

definition shadowRoot :: "node list \<Rightarrow> ref \<Rightarrow> ref option" where
  "shadowRoot doc r =
     (case deref doc r of
        Some (NodeV (Element tag cs (Some sh))) \<Rightarrow> Some (r @ [ShadowRoot])
      | _ \<Rightarrow> None)"

text \<open>
  \<open>getRootNode()\<close> of an element: the innermost shadow root that contains it, or the
  document.
\<close>

definition getRootNode :: "ref \<Rightarrow> ref" where
  "getRootNode r = rev (dropWhile (\<lambda>s. s \<noteq> ShadowRoot) (rev (butlast r)))"

text \<open>The parent and the index of a node that is a child.\<close>

definition parent_index :: "ref \<Rightarrow> (ref \<times> nat) option" where
  "parent_index r =
     (case rev r of Child k # p \<Rightarrow> Some (rev p, k) | _ \<Rightarrow> None)"

section \<open>The address codec\<close>

subsection \<open>indexedSelector\<close>

text \<open>
  The loop of indexedSelector walks \<open>previousSibling\<close> until there is none. The node in
  hand is the child \<open>k\<close> of \<open>parent\<close>; its previous sibling is the child \<open>k - 1\<close>, and
  the first child has none. The pair is the counter \<open>i\<close> and the flag
  \<open>hasSiblingsOfType\<close>.
\<close>

definition same_type_sibling :: "node list \<Rightarrow> string \<Rightarrow> ref \<Rightarrow> bool" where
  "same_type_sibling doc tag sib =
     (nodeType doc sib = Some 1 \<and> Some (toLowerCase tag) = map_option toLowerCase (tagName doc sib))"

fun previousSiblings_loop ::
  "node list \<Rightarrow> string \<Rightarrow> ref \<Rightarrow> nat \<Rightarrow> nat \<times> bool \<Rightarrow> nat \<times> bool" where
  "previousSiblings_loop doc tag parent 0 (i, has) = (i, has)"
| "previousSiblings_loop doc tag parent (Suc k) (i, has) =
     previousSiblings_loop doc tag parent k
       (if same_type_sibling doc tag (parent @ [Child k]) then (Suc i, True) else (i, has))"

text \<open>
  pathSelector calls indexedSelector only on a node with a local name, which is a child
  of its parent; \<open>None\<close> stands for a call on anything else.
\<close>

definition indexedSelector :: "node list \<Rightarrow> ref \<Rightarrow> string option" where
  "indexedSelector doc node =
     (case (localName doc node, parent_index node) of
        (Some tag, Some (parent, k)) \<Rightarrow>
          (case previousSiblings_loop doc tag parent k (1, False) of
             (i, has) \<Rightarrow>
               if \<not> has then Some tag
               else Some (tag @ '':nth-of-type('' @ number_toString i @ '')''))
      | _ \<Rightarrow> None)"

subsection \<open>pathSelector\<close>

text \<open>
  The argument is the event's composed path: the innermost target first, then its
  ancestors (shadow roots and the document among them), then the window. The selector
  computed for a path is cached on its first entry, in the property
  \<open>__path_selector\<close>; the cache is the function from entries to that property. An
  entry is named by its place in the tree, so the cache stands for the source's only
  while the tree is the same.
\<close>

datatype target = Node ref | Window

definition visit :: "node list \<Rightarrow> jsval \<Rightarrow> target \<Rightarrow> jsval" where
  "visit doc pathSel context =
     (case context of
        Window \<Rightarrow> pathSel
      | Node r \<Rightarrow>
          (case (localName doc r, indexedSelector doc r) of
             (Some tag, Some indexSelector) \<Rightarrow>
               if tag = [] then pathSel
               else
                 let delimiter = (if truthy pathSel then '' > '' @ to_string pathSel else []);
                     delimiter' =
                       (if shadowRoot doc r \<noteq> None \<and> shadowRoot doc r \<noteq> Some (getRootNode r)
                        then ''::shadow '' @ to_string pathSel else delimiter)
                 in Str (indexSelector @ delimiter')
           | _ \<Rightarrow> pathSel))"

fun pathSelector_loop :: "node list \<Rightarrow> jsval \<Rightarrow> target list \<Rightarrow> jsval" where
  "pathSelector_loop doc pathSel [] = pathSel"
| "pathSelector_loop doc pathSel (context # path) =
     pathSelector_loop doc (visit doc pathSel context) path"

definition pathSelector ::
  "node list \<Rightarrow> (target \<Rightarrow> jsval) \<Rightarrow> target list \<Rightarrow> (error + jsval) \<times> (target \<Rightarrow> jsval)" where
  "pathSelector doc cache path =
     (case path of
        [] \<Rightarrow> (Inl TypeError, cache)
      | el # rest \<Rightarrow>
          if truthy (cache el) then (Inr (cache el), cache)
          else
            let pathSel = pathSelector_loop doc Undefined (el # rest)
            in (Inr pathSel, cache (el := pathSel)))"

subsection \<open>pathLocator\<close>

text \<open>
  \<open>querySelector\<close> is the platform's, not the repository's. It is modelled from the DOM
  and Selectors standards for the selectors that pathSelector writes: type selectors,
  \<open>:nth-of-type(n)\<close> and the child combinator, on a tree of HTML elements without
  namespaces or attributes. A string outside this fragment is rejected the way
  \<open>querySelector\<close> rejects an invalid selector; the empty string is one. The model says
  nothing true of the platform for other valid selectors, for a name that is a lone
  hyphen, or for an element whose local name has upper-case letters; the properties
  below evaluate it inside the fragment or hold whatever it returns.
\<close>

datatype compound = Compound string "nat option"

definition ident_char :: "char \<Rightarrow> bool" where
  "ident_char c =
     (let n = (of_char c :: nat)
      in (65 \<le> n \<and> n \<le> 90) \<or> (97 \<le> n \<and> n \<le> 122) \<or> (48 \<le> n \<and> n \<le> 57)
         \<or> c = CHR ''-'' \<or> c = CHR ''_'')"

definition digit_char :: "char \<Rightarrow> bool" where
  "digit_char c = (let n = (of_char c :: nat) in 48 \<le> n \<and> n \<le> 57)"

definition parse_ident :: "string \<Rightarrow> string option" where
  "parse_ident s =
     (if s \<noteq> [] \<and> list_all ident_char s \<and> \<not> digit_char (hd s) then Some s else None)"

definition parse_number :: "string \<Rightarrow> nat option" where
  "parse_number s =
     (if s \<noteq> [] \<and> list_all digit_char s
      then Some (foldl (\<lambda>n c. 10 * n + (of_char c - 48)) 0 s) else None)"

definition parse_compound :: "string \<Rightarrow> compound option" where
  "parse_compound s =
     (case split '':nth-of-type('' s of
        [t] \<Rightarrow> map_option (\<lambda>tag. Compound tag None) (parse_ident t)
      | [t, a] \<Rightarrow>
          (if a \<noteq> [] \<and> last a = CHR '')''
           then (case (parse_ident t, parse_number (butlast a)) of
                   (Some tag, Some n) \<Rightarrow> Some (Compound tag (Some n))
                 | _ \<Rightarrow> None)
           else None)
      | _ \<Rightarrow> None)"

fun sequence_option :: "'a option list \<Rightarrow> 'a list option" where
  "sequence_option [] = Some []"
| "sequence_option (None # xs) = None"
| "sequence_option (Some x # xs) = map_option ((#) x) (sequence_option xs)"

definition parse_selector :: "string \<Rightarrow> compound list option" where
  "parse_selector s = sequence_option (map parse_compound (split '' > '' s))"

text \<open>
  An element's position among the siblings of its own type, counted from 1
  (what \<open>:nth-of-type\<close> compares with).
\<close>

definition is_element_named :: "string \<Rightarrow> node \<Rightarrow> bool" where
  "is_element_named tag n = (case n of Element t cs sh \<Rightarrow> t = tag | NonElement k \<Rightarrow> False)"

definition index_of_type :: "node list \<Rightarrow> ref \<Rightarrow> nat option" where
  "index_of_type doc r =
     (case (localName doc r, parent_index r) of
        (Some tag, Some (p, k)) \<Rightarrow>
          (case deref doc p of
             Some v \<Rightarrow> Some (Suc (length (filter (is_element_named tag) (take k (childNodes v)))))
           | None \<Rightarrow> None)
      | _ \<Rightarrow> None)"

text \<open>
  A type selector matches an HTML element when its name in lower case is the element's
  local name.
\<close>

definition matches_compound :: "node list \<Rightarrow> ref \<Rightarrow> compound \<Rightarrow> bool" where
  "matches_compound doc r c =
     (case c of Compound tag ordinal \<Rightarrow>
        localName doc r = Some (toLowerCase tag)
        \<and> (case ordinal of None \<Rightarrow> True | Some n \<Rightarrow> index_of_type doc r = Some n))"

text \<open>
  The compounds of \<open>a > b > c\<close> are matched from the last one: the element matches
  \<open>c\<close>, its parent is an element that matches \<open>b\<close>, and so on.
\<close>

fun matches_rev :: "node list \<Rightarrow> ref \<Rightarrow> compound list \<Rightarrow> bool" where
  "matches_rev doc r [] = True"
| "matches_rev doc r [c] = matches_compound doc r c"
| "matches_rev doc r (c # cs) =
     (matches_compound doc r c
      \<and> (case parent_index r of Some (p, k) \<Rightarrow> matches_rev doc p cs | None \<Rightarrow> False))"

text \<open>The nodes below a search root, in tree order; a shadow tree is not entered.\<close>

fun refs_of_node :: "ref \<Rightarrow> node \<Rightarrow> ref list"
  and refs_of_nodes :: "ref \<Rightarrow> nat \<Rightarrow> node list \<Rightarrow> ref list" where
  "refs_of_node r (Element tag cs sh) = r # refs_of_nodes r 0 cs"
| "refs_of_node r (NonElement t) = [r]"
| "refs_of_nodes p i [] = []"
| "refs_of_nodes p i (c # cs) = refs_of_node (p @ [Child i]) c @ refs_of_nodes p (Suc i) cs"

definition querySelector :: "node list \<Rightarrow> ref \<Rightarrow> string \<Rightarrow> error + ref option" where
  "querySelector doc root sel =
     (case parse_selector sel of
        None \<Rightarrow> Inl SyntaxError
      | Some cs \<Rightarrow>
          (case deref doc root of
             None \<Rightarrow> Inr None
           | Some v \<Rightarrow>
               Inr (find (\<lambda>r. cs \<noteq> [] \<and> matches_rev doc r (rev cs))
                      (refs_of_nodes root 0 (childNodes v)))))"

text \<open>
  The loop of pathLocator. \<open>root\<close> is the search root, \<open>None\<close> once it is \<open>null\<close> (the
  element found last hosts no shadow root); \<open>el\<close> is the element found last, \<open>None\<close> for
  \<open>undefined\<close> and \<open>null\<close>. Calling \<open>querySelector\<close> on \<open>null\<close> throws a TypeError.
\<close>

fun pathLocator_loop ::
  "node list \<Rightarrow> ref option \<Rightarrow> ref option \<Rightarrow> string list \<Rightarrow> error + ref option" where
  "pathLocator_loop doc root el [] = Inr el"
| "pathLocator_loop doc None el (part # parts) = Inl TypeError"
| "pathLocator_loop doc (Some root) el (part # parts) =
     (case querySelector doc root part of
        Inl e \<Rightarrow> Inl e
      | Inr None \<Rightarrow> Inr None
      | Inr (Some found) \<Rightarrow> pathLocator_loop doc (shadowRoot doc found) (Some found) parts)"

text \<open>The path of a received message is whatever the sender put there; \<open>split\<close> of \<open>undefined\<close> throws.\<close>

definition pathLocator :: "node list \<Rightarrow> jsval \<Rightarrow> error + ref option" where
  "pathLocator doc path =
     (case path of
        Undefined \<Rightarrow> Inl TypeError
      | Str s \<Rightarrow> pathLocator_loop doc (Some []) None (split ''::shadow '' s))"

section \<open>Remote cursors\<close>

text \<open>
  The page a widget lives in: the document tree, the scroll offsets of the document
  element, and the left and top of every element's bounding rectangle. Coordinates and
  times are integers (milliseconds for \<open>Date.now()\<close>); one handler runs within one
  reading of the clock.
\<close>

record page =
  doc :: "node list"
  scrollLeft :: int
  scrollTop :: int
  rect :: "ref \<Rightarrow> int \<times> int"

record location =
  loc_path :: jsval
  loc_x :: int
  loc_y :: int

record message =
  msg_event :: string
  msg_id :: string
  msg_color :: string
  msg_location :: location

text \<open>
  A marker is an element cloned from the widget's template into its render root. The
  render root's markers are listed in tree order, each under the handle of its node;
  \<open>transform\<close> is the pair of \<open>translate(x px, y px)\<close>, \<open>None\<close> while the style was
  never written.
\<close>

record marker =
  elem_id :: string
  elem_color :: string
  transform :: "(int \<times> int) option"

type_synonym surface = "(nat \<times> marker) list"

text \<open>class Cursor: \<open>deadline\<close> is \<open>undefined\<close> (\<open>None\<close>) until keepalive sets it.\<close>

record Cursor =
  cursor_id :: string
  el :: nat
  deadline :: "int option"

definition set_transform :: "nat \<Rightarrow> int \<times> int \<Rightarrow> surface \<Rightarrow> surface" where
  "set_transform h t surf =
     map (\<lambda>(k, m). if k = h then (k, m\<lparr>transform := Some t\<rparr>) else (k, m)) surf"

definition keepalive ::
  "page \<Rightarrow> int \<Rightarrow> location \<Rightarrow> Cursor \<Rightarrow> surface \<Rightarrow> error + Cursor \<times> surface" where
  "keepalive pg now loc c surf =
     (case pathLocator (doc pg) (loc_path loc) of
        Inl e \<Rightarrow> Inl e
      | Inr None \<Rightarrow> Inr (c, surf)
      | Inr (Some found) \<Rightarrow>
          (case rect pg found of
             (rect_left, rect_top) \<Rightarrow>
               let newX = scrollLeft pg + rect_left + loc_x loc;
                   newY = scrollTop pg + rect_top + loc_y loc
               in Inr (c\<lparr>deadline := Some now\<rparr>, set_transform (el c) (newX, newY) surf)))"

text \<open>
  The getter \<open>expired\<close>: with \<open>deadline\<close> undefined the difference is NaN, and every
  comparison with NaN is false.
\<close>

definition expired :: "int \<Rightarrow> Cursor \<Rightarrow> bool" where
  "expired now c = (case deadline c of None \<Rightarrow> False | Some d \<Rightarrow> now - d > 2000)"

definition die :: "Cursor \<Rightarrow> surface \<Rightarrow> surface" where
  "die c surf = filter (\<lambda>(k, m). k \<noteq> el c) surf"

section \<open>The custom element\<close>

text \<open>
  The fields of AnyCableCursorsElement and the state of the platform it touches:
  \<open>cursors\<close> holds the own properties of \<open>this.cursors\<close> in insertion order, \<open>tid\<close> is
  \<open>this._tid\<close>, \<open>own_cursor\<close> is \<open>this._cursor\<close>, \<open>listening\<close> tells whether the
  mousemove listener is attached to the document, \<open>rendered\<close> whether the render root
  holds the template, \<open>surface\<close> the markers of the render root, \<open>timers\<close> the pending
  timeouts with their due times, \<open>path_cache\<close> the \<open>__path_selector\<close> properties, and
  \<open>sent\<close> the messages whispered on the channel.
\<close>

record widget =
  userId :: string
  color :: string
  connected :: bool
  has_cable :: bool
  cursors :: "(string \<times> Cursor) list"
  tid :: "nat option"
  own_cursor :: "Cursor option"
  listening :: bool
  rendered :: bool
  surface :: surface
  next_node :: nat
  timers :: "(nat \<times> int) list"
  next_timer :: nat
  path_cache :: "target \<Rightarrow> jsval"
  sent :: "message list"

text \<open>
  The state the constructor leaves, with the attributes \<open>user-id\<close> and \<open>color\<close> given
  and no \<open>throttle\<close> (the handler of mousemove is then \<open>_handleMove\<close> itself).
\<close>

definition constructor :: "string \<Rightarrow> string \<Rightarrow> widget" where
  "constructor uid col =
     \<lparr>userId = uid, color = col, connected = False, has_cable = False, cursors = [],
      tid = None, own_cursor = None, listening = False, rendered = False, surface = [],
      next_node = 0, timers = [], next_timer = 0, path_cache = (\<lambda>t. Undefined), sent = []\<rparr>"

text \<open>The first render of the element puts the template into the render root.\<close>

definition firstUpdated :: "widget \<Rightarrow> widget" where
  "firstUpdated s = s\<lparr>rendered := True\<rparr>"

definition connectedCallback :: "widget \<Rightarrow> widget" where
  "connectedCallback s = s\<lparr>has_cable := True\<rparr>"

definition start :: "widget \<Rightarrow> widget" where
  "start s = s\<lparr>listening := True\<rparr>"

text \<open>\<open>_stop\<close>: \<open>this._cursor\<close> is assigned nowhere in the source, so reading \<open>die\<close> of it throws.\<close>

definition stop :: "widget \<Rightarrow> error option \<times> widget" where
  "stop s =
     (let s1 = s\<lparr>listening := False\<rparr>
      in case own_cursor s1 of
           None \<Rightarrow> (Some TypeError, s1)
         | Some c \<Rightarrow> (None, s1\<lparr>surface := die c (surface s1)\<rparr>))"

text \<open>The handlers of the channel's connect and disconnect events.\<close>

definition on_connect :: "widget \<Rightarrow> widget" where
  "on_connect s = start (s\<lparr>connected := True\<rparr>)"

definition on_disconnect :: "widget \<Rightarrow> error option \<times> widget" where
  "on_disconnect s = stop (s\<lparr>connected := False\<rparr>)"

definition disconnectedCallback :: "widget \<Rightarrow> widget" where
  "disconnectedCallback s =
     (if has_cable s then s\<lparr>cursors := [], connected := False\<rparr> else s)"

text \<open>
  \<open>_createCursor\<close>: without the template \<open>tpl.content\<close> throws. The clone is appended
  to the render root, and \<open>getElementById\<close> returns the first element of the render root
  with the marker's id.
\<close>

definition createCursor :: "string \<Rightarrow> string \<Rightarrow> widget \<Rightarrow> error + Cursor \<times> widget" where
  "createCursor i col s =
     (if \<not> rendered s then Inl TypeError
      else
        let h = next_node s;
            surf = surface s @ [(h, \<lparr>elem_id = ''cursor-'' @ i, elem_color = col, transform = None\<rparr>)];
            found = (case find (\<lambda>(k, m). elem_id m = ''cursor-'' @ i) surf of
                       Some (k, m) \<Rightarrow> k | None \<Rightarrow> h)
        in Inr (\<lparr>cursor_id = i, el = found, deadline = None\<rparr>,
                s\<lparr>surface := surf, next_node := Suc h\<rparr>))"

text \<open>
  The loop of \<open>_invalidateCursors\<close> over the entries of \<open>this.cursors\<close>: an expired
  cursor dies and its entry is deleted.
\<close>

fun sweep :: "int \<Rightarrow> (string \<times> Cursor) list \<Rightarrow> surface \<Rightarrow> (string \<times> Cursor) list \<times> surface" where
  "sweep now [] surf = ([], surf)"
| "sweep now ((k, c) # rest) surf =
     (if expired now c then sweep now rest (die c surf)
      else case sweep now rest surf of (kept, surf') \<Rightarrow> ((k, c) # kept, surf'))"

text \<open>
  \<open>!this._tid\<close>: a timeout handle is a number, falsy when it is 0; \<open>setTimeout\<close> returns
  a handle greater than zero.
\<close>

definition falsy_tid :: "nat option \<Rightarrow> bool" where
  "falsy_tid t = (case t of None \<Rightarrow> True | Some h \<Rightarrow> h = 0)"

definition invalidateCursors :: "int \<Rightarrow> widget \<Rightarrow> widget" where
  "invalidateCursors now s =
     (case sweep now (cursors s) (surface s) of
        (kept, surf) \<Rightarrow>
          let s1 = s\<lparr>cursors := kept, surface := surf\<rparr>
          in if falsy_tid (tid s1)
             then s1\<lparr>tid := Some (Suc (next_timer s1)),
                     timers := timers s1 @ [(Suc (next_timer s1), now + 500)],
                     next_timer := Suc (next_timer s1)\<rparr>
             else s1)"

text \<open>The callback of the timeout with handle \<open>h\<close>, run when that timeout fires.\<close>

definition timer_fired :: "nat \<Rightarrow> int \<Rightarrow> widget \<Rightarrow> widget" where
  "timer_fired h now s =
     (if h \<in> set (map fst (timers s))
      then invalidateCursors now
             (s\<lparr>timers := filter (\<lambda>(k, due). k \<noteq> h) (timers s), tid := None\<rparr>)
      else s)"

text \<open>
  \<open>this.cursors[id]\<close> reads an own property or, failing that, a property of
  Object.prototype; the latter is truthy and no Cursor, so calling its \<open>keepalive\<close>
  throws. Assigning to a key writes the own property, a new one last.
\<close>

definition object_prototype_keys :: "string list" where
  "object_prototype_keys =
     [''constructor'', ''__defineGetter__'', ''__defineSetter__'', ''hasOwnProperty'',
      ''__lookupGetter__'', ''__lookupSetter__'', ''isPrototypeOf'', ''propertyIsEnumerable'',
      ''toString'', ''valueOf'', ''__proto__'', ''toLocaleString'']"

fun assign :: "string \<Rightarrow> Cursor \<Rightarrow> (string \<times> Cursor) list \<Rightarrow> (string \<times> Cursor) list" where
  "assign i c [] = [(i, c)]"
| "assign i c ((k, v) # rest) = (if k = i then (k, c) # rest else (k, v) # assign i c rest)"

text \<open>
  \<open>_handleMessage\<close>. The cursor object is shared between the store and the call of
  keepalive; the model writes the cursor that keepalive returns back under its key.
  A handler that throws leaves the state as it was at the throw.
\<close>

definition refresh :: "page \<Rightarrow> int \<Rightarrow> message \<Rightarrow> Cursor \<Rightarrow> widget \<Rightarrow> error option \<times> widget" where
  "refresh pg now msg c s =
     (case keepalive pg now (msg_location msg) c (surface s) of
        Inl e \<Rightarrow> (Some e, s)
      | Inr (c', surf) \<Rightarrow>
          (None, invalidateCursors now
                   (s\<lparr>cursors := assign (msg_id msg) c' (cursors s), surface := surf\<rparr>)))"

definition handleMessage :: "page \<Rightarrow> int \<Rightarrow> message \<Rightarrow> widget \<Rightarrow> error option \<times> widget" where
  "handleMessage pg now msg s =
     (if msg_event msg \<noteq> ''move'' then (None, s)
      else
        case map_of (cursors s) (msg_id msg) of
          Some c \<Rightarrow> refresh pg now msg c s
        | None \<Rightarrow>
            if msg_id msg \<in> set object_prototype_keys then (Some TypeError, s)
            else
              (case createCursor (msg_id msg) (msg_color msg) s of
                 Inl e \<Rightarrow> (Some e, s)
               | Inr (c, s1) \<Rightarrow>
                   refresh pg now msg c (s1\<lparr>cursors := cursors s1 @ [(msg_id msg, c)]\<rparr>)))"

subsection \<open>The local pointer\<close>

record mouse_event =
  composedPath :: "target list"
  clientX :: int
  clientY :: int

text \<open>Only an element has \<open>getBoundingClientRect\<close>.\<close>

definition getBoundingClientRect :: "page \<Rightarrow> target \<Rightarrow> (int \<times> int) option" where
  "getBoundingClientRect pg t =
     (case t of
        Window \<Rightarrow> None
      | Node r \<Rightarrow> (if localName (doc pg) r = None then None else Some (rect pg r)))"

definition handleMove :: "page \<Rightarrow> mouse_event \<Rightarrow> widget \<Rightarrow> error option \<times> widget" where
  "handleMove pg e s =
     (case composedPath e of
        [] \<Rightarrow> (Some TypeError, s)
      | t # rest \<Rightarrow>
          (case getBoundingClientRect pg t of
             None \<Rightarrow> (Some TypeError, s)
           | Some (rect_left, rect_top) \<Rightarrow>
               (case pathSelector (doc pg) (path_cache s) (composedPath e) of
                  (Inl err, cache) \<Rightarrow> (Some err, s\<lparr>path_cache := cache\<rparr>)
                | (Inr p, cache) \<Rightarrow>
                    (None,
                     s\<lparr>path_cache := cache,
                       sent := sent s @
                         [\<lparr>msg_event = ''move'', msg_id = userId s, msg_color = color s,
                           msg_location =
                             \<lparr>loc_path = p, loc_x = clientX e - rect_left,
                               loc_y = clientY e - rect_top\<rparr>\<rparr>]\<rparr>))))"

text \<open>A mousemove on the document reaches \<open>_handleMove\<close> while the listener is attached.\<close>

definition mousemove :: "page \<Rightarrow> mouse_event \<Rightarrow> widget \<Rightarrow> error option \<times> widget" where
  "mousemove pg e s = (if listening s then handleMove pg e s else (None, s))"

subsection \<open>The events the widget reacts to\<close>

text \<open>
  A message on the channel, a timeout that fires, the channel's connect and disconnect
  events and a mousemove on the document, each with the page and the time it happens
  at. An exception ends the handler and leaves the state as it was at the throw; the
  widget goes on reacting to the events that follow.
\<close>

datatype event =
    Message page int message
  | TimerFired nat int
  | Connect
  | Disconnect
  | MouseMove page mouse_event

fun react :: "event \<Rightarrow> widget \<Rightarrow> widget" where
  "react (Message pg now msg) s = snd (handleMessage pg now msg s)"
| "react (TimerFired h now) s = timer_fired h now s"
| "react Connect s = on_connect s"
| "react Disconnect s = snd (on_disconnect s)"
| "react (MouseMove pg e) s = snd (mousemove pg e s)"

fun run :: "event list \<Rightarrow> widget \<Rightarrow> widget" where
  "run [] s = s"
| "run (e # evs) s = run evs (react e s)"

section \<open>Notions of the specification\<close>

text \<open>
  The event path of a target in a tree without slots, as the DOM standard builds it: the
  target, its ancestors up to the document (a shadow root is followed by its host), and
  the window.
\<close>

definition event_path :: "ref \<Rightarrow> target list" where
  "event_path r = map Node (rev (map (\<lambda>n. take n r) [0..<Suc (length r)])) @ [Window]"

text \<open>
  Two elements have the same tag when their names agree up to case; the siblings of a
  node are the child nodes of its parent, the node among them.
\<close>

definition same_tag :: "string \<Rightarrow> node \<Rightarrow> bool" where
  "same_tag tag n =
     (case n of Element t cs sh \<Rightarrow> toLowerCase t = toLowerCase tag | NonElement k \<Rightarrow> False)"

definition preceding_of_tag :: "node list \<Rightarrow> nat \<Rightarrow> string \<Rightarrow> nat" where
  "preceding_of_tag siblings k tag = length (filter (same_tag tag) (take k siblings))"

definition siblings_of :: "node list \<Rightarrow> ref \<Rightarrow> node list" where
  "siblings_of d r =
     (case parent_index r of
        Some (p, k) \<Rightarrow> (case deref d p of Some v \<Rightarrow> childNodes v | None \<Rightarrow> [])
      | None \<Rightarrow> [])"

definition only_of_its_tag :: "node list \<Rightarrow> ref \<Rightarrow> bool" where
  "only_of_its_tag d r =
     (case localName d r of
        Some tag \<Rightarrow> length (filter (same_tag tag) (siblings_of d r)) = 1
      | None \<Rightarrow> False)"

text \<open>
  An event decodes for \<open>k\<close> when it is a move message of sender \<open>k\<close> whose address
  pathLocator resolves to an element. The entry of \<open>k\<close> is undecoded while the store has
  none or its \<open>deadline\<close> is unset.
\<close>

fun decodes_for :: "string \<Rightarrow> event \<Rightarrow> bool" where
  "decodes_for k (Message pg now msg) =
     (msg_event msg = ''move'' \<and> msg_id msg = k
      \<and> (case pathLocator (doc pg) (loc_path (msg_location msg)) of
            Inr (Some r) \<Rightarrow> True | _ \<Rightarrow> False))"
| "decodes_for k e = False"

definition undecoded :: "string \<Rightarrow> widget \<Rightarrow> bool" where
  "undecoded k s = (case map_of (cursors s) k of None \<Rightarrow> True | Some c \<Rightarrow> deadline c = None)"

text \<open>
  The states the widget can be in: the keys of the store and the handles of the markers
  are distinct, \<open>_cursor\<close> is unassigned, every handle was given out before, and the
  marker of every entry is on the surface under the id \<open>cursor-\<close> followed by the key.
\<close>

definition well_formed :: "widget \<Rightarrow> bool" where
  "well_formed s =
     (distinct (map fst (cursors s)) \<and> distinct (map fst (surface s)) \<and> own_cursor s = None
      \<and> list_all (\<lambda>(h, m). h < next_node s) (surface s)
      \<and> list_all (\<lambda>(k, c). map_option elem_id (map_of (surface s) (el c)) = Some (''cursor-'' @ k))
           (cursors s))"

section \<open>A page and a widget to compute on\<close>

text \<open>
  A page whose body holds a custom element with an open shadow root (one span inside)
  and two div elements; every bounding rectangle has its corner at (10, 20).
\<close>

definition example_doc :: "node list" where
  "example_doc =
     [NonElement 10,
      Element ''html''
        [Element ''head'' [] None,
         Element ''body''
           [Element ''x-widget'' [] (Some [Element ''span'' [] None]),
            Element ''div'' [] None,
            Element ''div'' [] None] None] None]"

definition example_host :: ref where
  "example_host = [Child 1, Child 1, Child 0]"

definition example_page :: page where
  "example_page = \<lparr>doc = example_doc, scrollLeft = 0, scrollTop = 0, rect = (\<lambda>r. (10, 20))\<rparr>"

text \<open>A widget that is attached and rendered, before and after the channel's connect event.\<close>

definition attached_widget :: widget where
  "attached_widget = firstUpdated (connectedCallback (constructor ''me'' ''red''))"

definition example_widget :: widget where
  "example_widget = on_connect attached_widget"

definition move_to :: "string \<Rightarrow> string \<Rightarrow> message" where
  "move_to i p =
     \<lparr>msg_event = ''move'', msg_id = i, msg_color = ''blue'',
      msg_location = \<lparr>loc_path = Str p, loc_x = 1, loc_y = 2\<rparr>\<rparr>"

text \<open>The connected widget after a first message of \<open>u1\<close> whose address is found.\<close>

definition seen_widget :: widget where
  "seen_widget =
     snd (handleMessage example_page 0 (move_to ''u1'' ''html > body > div'') example_widget)"

text \<open>
  The connected widget after a first message of \<open>u1\<close> whose address finds nothing, and
  what happens next: sweeps, a message of \<open>u2\<close>, a message of \<open>u1\<close> on which
  pathLocator throws, a disconnect, and one more message of \<open>u1\<close> that finds nothing.
\<close>

definition unseen_widget :: widget where
  "unseen_widget =
     snd (handleMessage example_page 0 (move_to ''u1'' ''html > body > p'') example_widget)"

definition quiet_trace :: "event list" where
  "quiet_trace =
     [TimerFired 1 500,
      Message example_page 3000 (move_to ''u2'' ''html > body > div''),
      Message example_page 4000 (move_to ''u1'' ''html > body > div::shadow span''),
      TimerFired 2 6000,
      Disconnect,
      Message example_page 9000 (move_to ''u1'' ''html > body > p''),
      TimerFired 3 10000]"

section \<open>Properties of the address codec\<close>

lemma toLowerCase_toUpperCase_char: "toLowerCase_char (toUpperCase_char c) = toLowerCase_char c"
  by (auto simp add: toLowerCase_char_def toUpperCase_char_def Let_def)

lemma toLowerCase_toUpperCase: "toLowerCase (toUpperCase s) = toLowerCase s"
  by (simp add: toLowerCase_def toUpperCase_def toLowerCase_toUpperCase_char)

lemma resolve_append:
  "resolve v (r @ r') = (case resolve v r of None \<Rightarrow> None | Some v' \<Rightarrow> resolve v' r')"
  by (induction r arbitrary: v) (auto split: option.splits)

lemma deref_child:
  "deref d p = Some v \<Longrightarrow>
   deref d (p @ [Child j]) =
     (if j < length (childNodes v) then Some (NodeV (childNodes v ! j)) else None)"
  by (simp add: deref_def resolve_append)

lemma parent_index_child: "parent_index (p @ [Child k]) = Some (p, k)"
  by (simp add: parent_index_def)

text \<open>The test of the loop, on the sibling at index \<open>j\<close>, is the comparison of tags.\<close>

lemma same_type_sibling_child:
  assumes "deref d p = Some v" and "j < length (childNodes v)"
  shows "same_type_sibling d tag (p @ [Child j]) = same_tag tag (childNodes v ! j)"
  using assms
  by (cases "childNodes v ! j")
     (auto simp add: same_type_sibling_def same_tag_def nodeType_def tagName_def localName_def
        deref_child toLowerCase_toUpperCase)

text \<open>The loop started at sibling \<open>j\<close> adds the number of same-tag elements before \<open>j\<close>.\<close>

lemma previousSiblings_loop_count:
  assumes "deref d p = Some v"
  shows "j \<le> length (childNodes v) \<Longrightarrow>
     previousSiblings_loop d tag p j (i, has) =
       (i + preceding_of_tag (childNodes v) j tag,
        has \<or> 0 < preceding_of_tag (childNodes v) j tag)"
proof (induction j arbitrary: i has)
  case 0
  then show ?case by (simp add: preceding_of_tag_def)
next
  case (Suc j)
  then have j: "j < length (childNodes v)" by simp
  have step: "preceding_of_tag (childNodes v) (Suc j) tag =
      preceding_of_tag (childNodes v) j tag + (if same_tag tag (childNodes v ! j) then 1 else 0)"
    using j by (simp add: preceding_of_tag_def take_Suc_conv_app_nth)
  show ?case
    using Suc.IH [of "Suc i" True] Suc.IH [of i has] j
    by (simp add: same_type_sibling_child [OF assms j] step)
qed

text \<open>
  C8, as the code has it. The segment of an element is its bare tag name exactly when no
  element sibling before it has the same tag (compared without case); otherwise it is the
  tag name followed by \<open>:nth-of-type(i)\<close>, where \<open>i\<close> is one more than the number of
  element siblings of the same tag before it. Siblings after the element play no part.
\<close>

theorem indexedSelector_rule:
  assumes "deref d parent = Some v"
    and "k < length (childNodes v)"
    and "childNodes v ! k = Element tag cs sh"
  shows "indexedSelector d (parent @ [Child k]) =
     Some (if preceding_of_tag (childNodes v) k tag = 0 then tag
           else tag @ '':nth-of-type(''
                  @ number_toString (Suc (preceding_of_tag (childNodes v) k tag)) @ '')'')"
proof -
  have ln: "localName d (parent @ [Child k]) = Some tag"
    using assms by (simp add: localName_def deref_child)
  have lp: "previousSiblings_loop d tag parent k (Suc 0, False) =
      (Suc (preceding_of_tag (childNodes v) k tag), 0 < preceding_of_tag (childNodes v) k tag)"
    using previousSiblings_loop_count [OF assms(1), of k tag "Suc 0" False] assms(2) by simp
  show ?thesis
    by (simp add: indexedSelector_def ln parent_index_child lp)
qed

theorem indexedSelector_rule_witness:
  "indexedSelector example_doc ([Child 1, Child 1] @ [Child 2]) = Some ''div:nth-of-type(2)''
   \<and> indexedSelector example_doc ([Child 1, Child 1] @ [Child 1]) = Some ''div''"
proof -
  have d: "deref example_doc [Child 1, Child 1] =
      Some (NodeV (Element ''body''
           [Element ''x-widget'' [] (Some [Element ''span'' [] None]),
            Element ''div'' [] None,
            Element ''div'' [] None] None))"
    by (simp add: deref_def example_doc_def)
  have n2: "number_toString (Suc (Suc 0)) = ''2''" by (simp add: number_toString.simps)
  have l: "toLowerCase ''x-widget'' \<noteq> toLowerCase ''div''" by code_simp
  show ?thesis
    using indexedSelector_rule [OF d, of 2 "''div''" "[]" None]
          indexedSelector_rule [OF d, of 1 "''div''" "[]" None]
    by (simp add: preceding_of_tag_def same_tag_def n2 l)
qed

text \<open>
  The first of the two div elements of the example's body gets the bare segment, and it
  is not the only div among its siblings: the rule of C8 as the specification words it
  (bare exactly when the element is the only one of its tag) fails there.
\<close>

theorem bare_segment_counterexample:
  "indexedSelector example_doc [Child 1, Child 1, Child 1] = Some ''div''
   \<and> localName example_doc [Child 1, Child 1, Child 1] = Some ''div''
   \<and> \<not> only_of_its_tag example_doc [Child 1, Child 1, Child 1]"
  by code_simp

text \<open>
  Two targets of the example at which the round trip holds: the span inside the shadow
  tree of the custom element, and the second div of the body.
\<close>

lemma roundtrip_inside_shadow_tree:
  "fst (pathSelector example_doc (\<lambda>t. Undefined) (event_path (example_host @ [ShadowRoot, Child 0])))
     = Inr (Str ''html > body > x-widget::shadow span'')
   \<and> pathLocator example_doc (Str ''html > body > x-widget::shadow span'')
     = Inr (Some (example_host @ [ShadowRoot, Child 0]))
   \<and> fst (pathSelector example_doc (\<lambda>t. Undefined) (event_path [Child 1, Child 1, Child 2]))
     = Inr (Str ''html > body > div:nth-of-type(2)'')
   \<and> pathLocator example_doc (Str ''html > body > div:nth-of-type(2)'')
     = Inr (Some [Child 1, Child 1, Child 2])"
  by code_simp

text \<open>
  C1 at a pointer target that hosts a shadow root (the pointer over the host's own box):
  the address ends in \<open>::shadow undefined\<close>, and decoding it finds no element, where
  the round trip promises the host.
\<close>

theorem roundtrip_fails_at_shadow_host:
  "hd (event_path example_host) = Node example_host
   \<and> localName example_doc example_host = Some ''x-widget''
   \<and> fst (pathSelector example_doc (\<lambda>t. Undefined) (event_path example_host))
       = Inr (Str ''html > body > x-widget::shadow undefined'')
   \<and> pathLocator example_doc (Str ''html > body > x-widget::shadow undefined'') = Inr None"
  by code_simp

text \<open>
  What pathLocator does when it does not throw: the element it returns is the one found
  for the last part, never the one of an earlier part, and a part that finds nothing
  ends the loop with no element. It throws when a part follows an element that hosts no
  shadow root.
\<close>

lemma pathLocator_loop_last:
  "pathLocator_loop d root found parts = Inr (Some r) \<Longrightarrow> parts \<noteq> [] \<Longrightarrow>
   \<exists>root'. querySelector d root' (last parts) = Inr (Some r)"
proof (induction d root found parts rule: pathLocator_loop.induct)
  case (1 d root found)
  then show ?case by simp
next
  case (2 d found part parts)
  then show ?case by simp
next
  case (3 d root found part parts)
  show ?case
  proof (cases "querySelector d root part")
    case (Inl e)
    then show ?thesis using 3 by simp
  next
    case (Inr q)
    show ?thesis
    proof (cases q)
      case None
      then show ?thesis using 3 Inr by simp
    next
      case (Some f)
      show ?thesis
      proof (cases "parts = []")
        case True
        then show ?thesis using 3 Inr Some by auto
      next
        case False
        then show ?thesis using 3 Inr Some by auto
      qed
    qed
  qed
qed

lemma pathLocator_loop_stops:
  "querySelector d root part = Inr None \<Longrightarrow>
   pathLocator_loop d (Some root) found (part # parts) = Inr None"
  by simp

lemma pathLocator_loop_null_root:
  "querySelector d root part = Inr (Some f) \<Longrightarrow> shadowRoot d f = None \<Longrightarrow>
   pathLocator_loop d (Some root) found (part # next_part # parts) = Inl TypeError"
  by simp

text \<open>
  C7 at an address that crosses into an element without a shadow root: the second part
  is looked up on \<open>null\<close>, and pathLocator throws a TypeError. The empty address makes
  \<open>querySelector\<close> throw a SyntaxError.
\<close>

theorem pathLocator_throws:
  "pathLocator example_doc (Str ''html > body > div::shadow span'') = Inl TypeError
   \<and> pathLocator example_doc (Str []) = Inl SyntaxError"
  by code_simp

section \<open>Properties of the store and the sweep\<close>




text \<open>
  C4 at an entry whose only message carried an address that finds no element: created at
  time 0 and never refreshed, it is still in the store after the sweep at time 5000.
\<close>

theorem stale_entry_survives_sweep:
  "pathLocator (doc example_page) (Str ''html > body > p'') = Inr None
   \<and> map fst (cursors example_widget) = []
   \<and> map (\<lambda>(k, c). (k, deadline c))
        (cursors (timer_fired 1 5000
           (snd (handleMessage example_page 0 (move_to ''u1'' ''html > body > p'')
                   example_widget))))
      = [(''u1'', None)]"
  by code_simp

text \<open>
  C5 at a session with one remote cursor: the handler of the channel's disconnect event
  detaches the listener and then throws, and the store still holds the entry. The
  element's \<open>disconnectedCallback\<close> is the path that empties the store.
\<close>

theorem disconnect_keeps_store:
  "fst (on_disconnect
          (snd (handleMessage example_page 0 (move_to ''u1'' ''html > body > div'')
                  example_widget))) = Some TypeError
   \<and> map fst (cursors (snd (on_disconnect
          (snd (handleMessage example_page 0 (move_to ''u1'' ''html > body > div'')
                  example_widget))))) = [''u1'']
   \<and> \<not> listening (snd (on_disconnect
          (snd (handleMessage example_page 0 (move_to ''u1'' ''html > body > div'')
                  example_widget))))
   \<and> map fst (cursors (disconnectedCallback
          (snd (handleMessage example_page 0 (move_to ''u1'' ''html > body > div'')
                  example_widget)))) = []"
  by code_simp



lemma assign_same: "map_of cs i = Some c \<Longrightarrow> assign i c cs = cs"
  by (induction cs) (auto split: if_splits)

lemma assign_new: "map_of cs i = None \<Longrightarrow> assign i c (cs @ [(i, c0)]) = cs @ [(i, c)]"
  by (induction cs) (auto split: if_splits)

lemma map_of_assign: "map_of (assign i c cs) k = (if k = i then Some c else map_of cs k)"
  by (induction cs) auto

lemma keys_assign: "map_of cs i \<noteq> None \<Longrightarrow> map fst (assign i c cs) = map fst cs"
  by (induction cs) (auto split: if_splits)

lemma sweep_eq:
  "sweep now cs surf =
     (filter (\<lambda>(k, c). \<not> expired now c) cs,
      filter (\<lambda>(h, m). h \<notin> set (map (el \<circ> snd) (filter (\<lambda>(k, c). expired now c) cs))) surf)"
proof (induction cs arbitrary: surf)
  case Nil
  then show ?case by simp
next
  case (Cons a cs)
  obtain k c where a: "a = (k, c)" by (cases a)
  show ?case
  proof (cases "expired now c")
    case True
    have "filter (\<lambda>(h, m). h \<notin> set (map (el \<circ> snd) (filter (\<lambda>(k, c). expired now c) cs))) (die c surf)
        = filter (\<lambda>(h, m). h \<notin> set (map (el \<circ> snd) (filter (\<lambda>(k, c). expired now c) ((k, c) # cs)))) surf"
      using True by (auto simp add: die_def intro: filter_cong)
    then show ?thesis using True a Cons.IH [of "die c surf"] by simp
  next
    case False
    then show ?thesis using a Cons.IH [of surf] by simp
  qed
qed

lemma sweep_kept: "fst (sweep now cs surf) = filter (\<lambda>(k, c). \<not> expired now c) cs"
  by (simp add: sweep_eq)

lemma sweep_surface:
  "snd (sweep now cs surf) =
     filter (\<lambda>(h, m). h \<notin> set (map (el \<circ> snd) (filter (\<lambda>(k, c). expired now c) cs))) surf"
  by (simp add: sweep_eq)

lemma map_of_append_new: "map_of cs i = None \<Longrightarrow> map_of (cs @ [(i, c)]) i = Some c"
  by (induction cs) (auto split: if_splits)

lemma sweep_surface_subset: "set (snd (sweep now cs surf)) \<subseteq> set surf"
  by (simp add: sweep_surface)

lemma map_of_filter_keep:
  "map_of cs k = Some c \<Longrightarrow> P (k, c) \<Longrightarrow> map_of (filter P cs) k = Some c"
  by (induction cs) (auto split: if_splits)

lemma map_of_filter_none:
  "map_of cs k = None \<Longrightarrow> map_of (filter P cs) k = None"
  by (induction cs) (auto split: if_splits)

lemma cursors_invalidateCursors:
  "cursors (invalidateCursors now s) = filter (\<lambda>(k, c). \<not> expired now c) (cursors s)"
  by (simp add: invalidateCursors_def Let_def sweep_eq)

lemma surface_invalidateCursors:
  "surface (invalidateCursors now s) = snd (sweep now (cursors s) (surface s))"
  by (simp add: invalidateCursors_def Let_def sweep_eq)

lemma keepalive_not_found:
  "pathLocator (doc pg) (loc_path loc) = Inr None \<Longrightarrow> keepalive pg now loc c surf = Inr (c, surf)"
  by (simp add: keepalive_def)

lemma not_expired_unset: "deadline c = None \<Longrightarrow> \<not> expired now c"
  by (simp add: expired_def)

section \<open>Entries that never decode\<close>

lemma keepalive_cases:
  "keepalive pg now loc c surf = Inr (c', surf') \<Longrightarrow>
     (c' = c \<and> surf' = surf \<and> pathLocator (doc pg) (loc_path loc) = Inr None)
     \<or> (\<exists>r t. pathLocator (doc pg) (loc_path loc) = Inr (Some r)
            \<and> c' = c\<lparr>deadline := Some now\<rparr> \<and> surf' = set_transform (el c) t surf)"
  by (auto simp add: keepalive_def Let_def split: sum.splits option.splits prod.splits)

lemma refresh_keeps_other:
  assumes "k \<noteq> msg_id msg" and "map_of (cursors s) k = Some c0" and "deadline c0 = None"
  shows "map_of (cursors (snd (refresh pg now msg c s))) k = Some c0"
  using assms
  by (auto simp add: refresh_def cursors_invalidateCursors map_of_assign not_expired_unset
        intro!: map_of_filter_keep split: sum.splits)

lemma refresh_none_other:
  assumes "k \<noteq> msg_id msg" and "map_of (cursors s) k = None"
  shows "map_of (cursors (snd (refresh pg now msg c s))) k = None"
  using assms
  by (auto simp add: refresh_def cursors_invalidateCursors map_of_assign
        intro!: map_of_filter_none split: sum.splits)

lemma refresh_keeps_undecoded:
  assumes "map_of (cursors s) (msg_id msg) = Some c" and "deadline c = None"
    and "\<not> (case pathLocator (doc pg) (loc_path (msg_location msg)) of
            Inr (Some r) \<Rightarrow> True | _ \<Rightarrow> False)"
  shows "map_of (cursors (snd (refresh pg now msg c s))) (msg_id msg) = Some c"
proof (cases "keepalive pg now (msg_location msg) c (surface s)")
  case (Inl e)
  then show ?thesis using assms by (simp add: refresh_def)
next
  case (Inr p)
  obtain c' surf' where p: "p = (c', surf')" by (cases p)
  from keepalive_cases [OF Inr [unfolded p]] assms(3)
  have "c' = c" by auto
  then show ?thesis
    using Inr p assms
    by (auto simp add: refresh_def cursors_invalidateCursors map_of_assign not_expired_unset
          intro!: map_of_filter_keep)
qed

lemma map_of_append_other:
  "k \<noteq> i \<Longrightarrow> map_of (cs @ [(i, c)]) k = map_of cs k"
  by (induction cs) auto

lemma handleMessage_keeps_undecoded:
  assumes "map_of (cursors s) k = Some c" and "deadline c = None"
    and "\<not> decodes_for k (Message pg now msg)"
  shows "map_of (cursors (snd (handleMessage pg now msg s))) k = Some c"
proof (cases "msg_event msg = ''move''")
  case False
  then show ?thesis using assms by (simp add: handleMessage_def)
next
  case move: True
  show ?thesis
  proof (cases "msg_id msg = k")
    case True
    then show ?thesis
      using assms move refresh_keeps_undecoded [of s msg c pg now]
      by (simp add: handleMessage_def)
  next
    case False
    then have ne: "k \<noteq> msg_id msg" by simp
    show ?thesis
    proof (cases "map_of (cursors s) (msg_id msg)")
      case (Some c1)
      then show ?thesis
        using move refresh_keeps_other [OF ne assms(1,2)] by (simp add: handleMessage_def)
    next
      case None
      show ?thesis
      proof (cases "createCursor (msg_id msg) (msg_color msg) s")
        case (Inl e)
        then show ?thesis using move None assms by (simp add: handleMessage_def)
      next
        case (Inr p)
        obtain c1 s1 where p: "p = (c1, s1)" by (cases p)
        have cs: "cursors s1 = cursors s"
          using Inr p by (auto simp add: createCursor_def Let_def split: if_splits)
        have "map_of (cursors (s1\<lparr>cursors := cursors s1 @ [(msg_id msg, c1)]\<rparr>)) k = Some c"
          using ne assms(1) by (simp add: cs map_of_append_other del: map_of_append)
        from refresh_keeps_other [OF ne this assms(2)]
        show ?thesis
          using move None Inr p assms by (simp add: handleMessage_def)
      qed
    qed
  qed
qed

lemma createCursor_result:
  "createCursor i col s = Inr (c, s1) \<Longrightarrow>
     deadline c = None \<and> cursors s1 = cursors s \<and> own_cursor s1 = own_cursor s
     \<and> surface s1 = surface s @ [(next_node s, \<lparr>elem_id = ''cursor-'' @ i, elem_color = col, transform = None\<rparr>)]
     \<and> next_node s1 = Suc (next_node s)
     \<and> el c = (case find (\<lambda>(k, m). elem_id m = ''cursor-'' @ i) (surface s1) of
                  Some (k, m) \<Rightarrow> k | None \<Rightarrow> next_node s)"
  by (auto simp add: createCursor_def Let_def split: if_splits)

lemma handleMessage_undecoded:
  assumes "undecoded k s" and "\<not> decodes_for k (Message pg now msg)"
  shows "undecoded k (snd (handleMessage pg now msg s))"
proof (cases "map_of (cursors s) k")
  case (Some c)
  then have "deadline c = None" using assms(1) by (simp add: undecoded_def)
  from handleMessage_keeps_undecoded [OF Some this assms(2)]
  show ?thesis using \<open>deadline c = None\<close> by (simp add: undecoded_def)
next
  case None
  show ?thesis
  proof (cases "msg_event msg = ''move''")
    case False
    then show ?thesis using assms by (simp add: handleMessage_def)
  next
    case move: True
    show ?thesis
    proof (cases "msg_id msg = k")
      case True
      show ?thesis
      proof (cases "createCursor (msg_id msg) (msg_color msg) s")
        case (Inl e)
        then show ?thesis using move None True assms(1) by (simp add: handleMessage_def)
      next
        case (Inr p)
        obtain c1 s1 where p: "p = (c1, s1)" by (cases p)
        note r = createCursor_result [OF Inr [unfolded p]]
        have m: "map_of (cursors (s1\<lparr>cursors := cursors s1 @ [(msg_id msg, c1)]\<rparr>)) (msg_id msg)
                  = Some c1"
          using None True r map_of_append_new [of "cursors s" "msg_id msg" c1]
          by (simp del: map_of_append)
        have nd: "\<not> (case pathLocator (doc pg) (loc_path (msg_location msg)) of
                      Inr (Some r) \<Rightarrow> True | _ \<Rightarrow> False)"
          using assms(2) move True by simp
        from refresh_keeps_undecoded [OF m _ nd] r
        have "map_of (cursors (snd (refresh pg now msg c1
                  (s1\<lparr>cursors := cursors s1 @ [(msg_id msg, c1)]\<rparr>)))) k = Some c1"
          using True by simp
        then show ?thesis
          using move None True Inr p r assms(1)
          by (simp add: handleMessage_def undecoded_def)
      qed
    next
      case False
      then have ne: "k \<noteq> msg_id msg" by simp
      show ?thesis
      proof (cases "map_of (cursors s) (msg_id msg)")
        case (Some c1)
        then show ?thesis
          using move refresh_none_other [OF ne None] by (simp add: handleMessage_def undecoded_def)
      next
        case none: None
        show ?thesis
        proof (cases "createCursor (msg_id msg) (msg_color msg) s")
          case (Inl e)
          then show ?thesis using move none assms(1) by (simp add: handleMessage_def)
        next
          case (Inr p)
          obtain c1 s1 where p: "p = (c1, s1)" by (cases p)
          note r = createCursor_result [OF Inr [unfolded p]]
          have "map_of (cursors (s1\<lparr>cursors := cursors s1 @ [(msg_id msg, c1)]\<rparr>)) k = None"
            using ne None r by (simp add: map_of_append_other del: map_of_append)
          from refresh_none_other [OF ne this]
          show ?thesis
            using move none Inr p assms(1) by (simp add: handleMessage_def undecoded_def)
        qed
      qed
    qed
  qed
qed

lemma cursors_timer_fired:
  "cursors (timer_fired h now s) = cursors s
   \<or> cursors (timer_fired h now s) = filter (\<lambda>(k, c). \<not> expired now c) (cursors s)"
  by (simp add: timer_fired_def cursors_invalidateCursors)

lemma cursors_on_connect: "cursors (on_connect s) = cursors s"
  by (simp add: on_connect_def start_def)

lemma cursors_on_disconnect: "cursors (snd (on_disconnect s)) = cursors s"
  by (simp add: on_disconnect_def stop_def Let_def split: option.splits)

lemma cursors_mousemove: "cursors (snd (mousemove pg e s)) = cursors s"
  by (simp add: mousemove_def handleMove_def split: list.splits option.splits prod.splits sum.splits)

lemma react_keeps_undecoded:
  assumes "map_of (cursors s) k = Some c" and "deadline c = None" and "\<not> decodes_for k e"
  shows "map_of (cursors (react e s)) k = Some c"
proof (cases e)
  case (Message pg now msg)
  then show ?thesis using handleMessage_keeps_undecoded [of s k c pg now msg] assms by simp
next
  case (TimerFired h now)
  then show ?thesis
    using cursors_timer_fired [of h now s] assms
    by (auto simp add: not_expired_unset intro!: map_of_filter_keep)
next
  case Connect
  then show ?thesis using assms by (simp add: cursors_on_connect)
next
  case Disconnect
  then show ?thesis using assms by (simp add: cursors_on_disconnect)
next
  case (MouseMove pg ev)
  then show ?thesis using assms by (simp add: cursors_mousemove)
qed

lemma react_undecoded:
  assumes "undecoded k s" and "\<not> decodes_for k e"
  shows "undecoded k (react e s)"
proof (cases e)
  case (Message pg now msg)
  then show ?thesis using handleMessage_undecoded [of k s pg now msg] assms by simp
next
  case (TimerFired h now)
  show ?thesis
  proof (cases "map_of (cursors s) k")
    case None
    then show ?thesis
      using cursors_timer_fired [of h now s] TimerFired
      by (auto simp add: undecoded_def map_of_filter_none)
  next
    case (Some c)
    then have "deadline c = None" using assms(1) by (simp add: undecoded_def)
    from react_keeps_undecoded [OF Some this assms(2)] this
    show ?thesis by (simp add: undecoded_def)
  qed
next
  case Connect
  then show ?thesis using assms by (simp add: undecoded_def cursors_on_connect)
next
  case Disconnect
  then show ?thesis using assms by (simp add: undecoded_def cursors_on_disconnect)
next
  case (MouseMove pg ev)
  then show ?thesis using assms by (simp add: undecoded_def cursors_mousemove)
qed

lemma run_undecoded:
  "undecoded k s \<Longrightarrow> list_all (\<lambda>e. \<not> decodes_for k e) evs \<Longrightarrow> undecoded k (run evs s)"
  by (induction evs arbitrary: s) (auto simp add: react_undecoded)

lemma run_keeps_undecoded:
  "map_of (cursors s) k = Some c \<Longrightarrow> deadline c = None \<Longrightarrow>
   list_all (\<lambda>e. \<not> decodes_for k e) evs \<Longrightarrow> map_of (cursors (run evs s)) k = Some c"
  by (induction evs arbitrary: s) (auto simp add: react_keeps_undecoded)

lemma map_of_filter_fst:
  "map_of (filter (\<lambda>(h, m). P h) xs) h = (if P h then map_of xs h else None)"
  by (induction xs) auto

lemma set_transform_alt:
  "set_transform h t surf =
     map (\<lambda>(k, m). (k, if k = h then m\<lparr>transform := Some t\<rparr> else m)) surf"
  by (auto simp add: set_transform_def)

lemma map_fst_set_transform: "map fst (set_transform h t surf) = map fst surf"
  by (induction surf) (auto simp add: set_transform_alt)

lemma map_of_set_transform:
  "map_of (set_transform h t surf) x =
     map_option (\<lambda>m. if x = h then m\<lparr>transform := Some t\<rparr> else m) (map_of surf x)"
  by (induction surf) (auto simp add: set_transform_alt)

lemma elem_id_set_transform:
  "map_option elem_id (map_of (set_transform h t surf) x) = map_option elem_id (map_of surf x)"
  by (cases "map_of surf x") (auto simp add: map_of_set_transform)

lemma set_assign: "set (assign i c cs) \<subseteq> set cs \<union> {(i, c)}"
  by (induction i c cs rule: assign.induct) auto

lemma handles_below: "list_all (\<lambda>(h, m). h < n) xs = (\<forall>h \<in> set (map fst xs). h < n)"
  by (induction xs) auto

lemma well_formed_same_handle:
  assumes "well_formed s" and "(k, c) \<in> set (cursors s)" and "(k', c') \<in> set (cursors s)"
    and "el c = el c'"
  shows "k = k' \<and> c = c'"
proof -
  have a: "map_option elem_id (map_of (surface s) (el c)) = Some (''cursor-'' @ k)"
    and b: "map_option elem_id (map_of (surface s) (el c')) = Some (''cursor-'' @ k')"
    using assms(1-3) by (auto simp add: well_formed_def list_all_iff)
  then have "k = k'" using assms(4) by simp
  moreover have "distinct (map fst (cursors s))" using assms(1) by (simp add: well_formed_def)
  ultimately show ?thesis using assms(2,3) by (auto dest: eq_key_imp_eq_value)
qed

lemma well_formed_invalidateCursors:
  assumes "well_formed s"
  shows "well_formed (invalidateCursors now s)"
proof -
  define E where "E = set (map (el \<circ> snd) (filter (\<lambda>(k, c). expired now c) (cursors s)))"
  have cs: "cursors (invalidateCursors now s) = filter (\<lambda>(k, c). \<not> expired now c) (cursors s)"
    by (rule cursors_invalidateCursors)
  have sf: "surface (invalidateCursors now s) = filter (\<lambda>(h, m). h \<notin> E) (surface s)"
    by (simp add: surface_invalidateCursors sweep_surface E_def)
  have oc: "own_cursor (invalidateCursors now s) = own_cursor s"
    and nn: "next_node (invalidateCursors now s) = next_node s"
    by (simp_all add: invalidateCursors_def Let_def split: prod.splits)
  have kept: "map_option elem_id (map_of (filter (\<lambda>(h, m). h \<notin> E) (surface s)) (el c))
                = Some (''cursor-'' @ k)"
    if "(k, c) \<in> set (cursors s)" and "\<not> expired now c" for k c
  proof -
    have "el c \<notin> E"
    proof
      assume "el c \<in> E"
      then obtain k' c' where "(k', c') \<in> set (cursors s)" "expired now c'" "el c = el c'"
        by (auto simp add: E_def)
      with well_formed_same_handle [OF assms that(1) this(1)] that(2) show False by simp
    qed
    then show ?thesis
      using assms that(1) by (auto simp add: map_of_filter_fst well_formed_def list_all_iff)
  qed
  show ?thesis
    unfolding well_formed_def cs sf oc nn
    using assms kept
    by (auto simp add: well_formed_def distinct_map_filter list_all_iff)
qed

lemma well_formed_refresh:
  assumes "well_formed s" and "map_of (cursors s) (msg_id msg) = Some c"
  shows "well_formed (snd (refresh pg now msg c s))"
proof (cases "keepalive pg now (msg_location msg) c (surface s)")
  case (Inl e)
  then show ?thesis using assms by (simp add: refresh_def)
next
  case (Inr p)
  obtain c' surf' where p: "p = (c', surf')" by (cases p)
  define s2 where "s2 = s\<lparr>cursors := assign (msg_id msg) c' (cursors s), surface := surf'\<rparr>"
  have res: "snd (refresh pg now msg c s) = invalidateCursors now s2"
    using Inr p by (simp add: refresh_def s2_def)
  have mem: "(msg_id msg, c) \<in> set (cursors s)"
    using assms(2) by (rule map_of_SomeD)
  from keepalive_cases [OF Inr [unfolded p]]
  have "well_formed s2"
  proof
    assume "c' = c \<and> surf' = surface s
        \<and> pathLocator (doc pg) (loc_path (msg_location msg)) = Inr None"
    then have "s2 = s" using assms(2) by (simp add: s2_def assign_same)
    then show ?thesis using assms(1) by simp
  next
    assume "\<exists>r t. pathLocator (doc pg) (loc_path (msg_location msg)) = Inr (Some r)
        \<and> c' = c\<lparr>deadline := Some now\<rparr> \<and> surf' = set_transform (el c) t (surface s)"
    then obtain t where c': "c' = c\<lparr>deadline := Some now\<rparr>"
      and surf': "surf' = set_transform (el c) t (surface s)" by blast
    have keys: "map fst (assign (msg_id msg) c' (cursors s)) = map fst (cursors s)"
      using assms(2) by (simp add: keys_assign)
    have each: "map_option elem_id (map_of surf' (el c1)) = Some (''cursor-'' @ k)"
      if "(k, c1) \<in> set (assign (msg_id msg) c' (cursors s))" for k c1
    proof -
      from that set_assign [of "msg_id msg" c' "cursors s"]
      have "(k, c1) \<in> set (cursors s) \<or> (k = msg_id msg \<and> c1 = c')" by auto
      then show ?thesis
        using assms(1) mem
        by (auto simp add: surf' c' elem_id_set_transform well_formed_def list_all_iff)
    qed
    have d1: "distinct (map fst (cursors s2))"
      using assms(1) by (simp add: s2_def keys well_formed_def)
    have d2: "distinct (map fst (surface s2))"
      using assms(1) by (simp add: s2_def surf' map_fst_set_transform well_formed_def)
    have oc: "own_cursor s2 = None"
      using assms(1) by (simp add: s2_def well_formed_def)
    have hb: "list_all (\<lambda>(h, m). h < next_node s2) (surface s2)"
      using assms(1)
      by (simp add: s2_def surf' handles_below map_fst_set_transform well_formed_def)
    have ea: "list_all (\<lambda>(k, c1). map_option elem_id (map_of (surface s2) (el c1))
                 = Some (''cursor-'' @ k)) (cursors s2)"
      unfolding list_all_iff using each by (auto simp add: s2_def)
    show ?thesis
      unfolding well_formed_def using d1 d2 oc hb ea by blast
  qed
  then show ?thesis by (simp add: res well_formed_invalidateCursors)
qed

lemma find_last_resort:
  "P y \<Longrightarrow> \<exists>x. find P (xs @ [y]) = Some x \<and> P x \<and> x \<in> set (xs @ [y])"
  by (induction xs) auto

lemma well_formed_created:
  assumes "well_formed s" and "map_of (cursors s) i = None"
    and "createCursor i col s = Inr (c0, s1)"
  shows "well_formed (s1\<lparr>cursors := cursors s1 @ [(i, c0)]\<rparr>)"
proof -
  define mk where "mk = \<lparr>elem_id = ''cursor-'' @ i, elem_color = col, transform = None\<rparr>"
  define surf where "surf = surface s @ [(next_node s, mk)]"
  note r = createCursor_result [OF assms(3)]
  have sf: "surface s1 = surf" using r by (simp add: surf_def mk_def)
  have below: "\<forall>h \<in> set (map fst (surface s)). h < next_node s"
    using assms(1) by (simp add: well_formed_def handles_below)
  have d2: "distinct (map fst surf)"
    using assms(1) below by (auto simp add: surf_def well_formed_def)
  have d1: "distinct (map fst (cursors s @ [(i, c0)]))"
    using assms(1,2) by (auto simp add: well_formed_def map_of_eq_None_iff)
  have hb: "list_all (\<lambda>(h, m). h < Suc (next_node s)) surf"
    unfolding handles_below using below by (auto simp add: surf_def less_Suc_eq)
  have old: "map_option elem_id (map_of surf (el c)) = Some (''cursor-'' @ k)"
    if "(k, c) \<in> set (cursors s)" for k c
  proof -
    have "map_option elem_id (map_of (surface s) (el c)) = Some (''cursor-'' @ k)"
      using assms(1) that by (auto simp add: well_formed_def list_all_iff)
    then show ?thesis by (auto simp add: surf_def map_add_def split: option.splits)
  qed
  have new: "map_option elem_id (map_of surf (el c0)) = Some (''cursor-'' @ i)"
  proof -
    have "(\<lambda>(k, m). elem_id m = ''cursor-'' @ i) (next_node s, mk)" by (simp add: mk_def)
    from find_last_resort [of "\<lambda>(k, m). elem_id m = ''cursor-'' @ i" "(next_node s, mk)"
           "surface s", OF this]
    obtain k m where f: "find (\<lambda>(k, m). elem_id m = ''cursor-'' @ i) surf = Some (k, m)"
      and e: "elem_id m = ''cursor-'' @ i" and m: "(k, m) \<in> set surf"
      by (auto simp add: surf_def)
    have "el c0 = k" using r f by (simp add: sf)
    moreover have "map_of surf k = Some m" using d2 m by (rule map_of_is_SomeI)
    ultimately show ?thesis using e by simp
  qed
  have ea: "list_all (\<lambda>(k, c). map_option elem_id (map_of surf (el c)) = Some (''cursor-'' @ k))
              (cursors s @ [(i, c0)])"
    unfolding list_all_iff using old new by auto
  have e1: "cursors (s1\<lparr>cursors := cursors s1 @ [(i, c0)]\<rparr>) = cursors s @ [(i, c0)]"
    and e2: "surface (s1\<lparr>cursors := cursors s1 @ [(i, c0)]\<rparr>) = surf"
    and e3: "own_cursor (s1\<lparr>cursors := cursors s1 @ [(i, c0)]\<rparr>) = None"
    and e4: "next_node (s1\<lparr>cursors := cursors s1 @ [(i, c0)]\<rparr>) = Suc (next_node s)"
    using assms(1) r by (simp_all add: sf well_formed_def)
  show ?thesis
    unfolding well_formed_def e1 e2 e3 e4 using d1 d2 hb ea by blast
qed

lemma well_formed_handleMessage:
  assumes "well_formed s"
  shows "well_formed (snd (handleMessage pg now msg s))"
proof (cases "msg_event msg = ''move''")
  case False
  then show ?thesis using assms by (simp add: handleMessage_def)
next
  case move: True
  show ?thesis
  proof (cases "map_of (cursors s) (msg_id msg)")
    case (Some c)
    then show ?thesis
      using move well_formed_refresh [OF assms Some] by (simp add: handleMessage_def)
  next
    case None
    show ?thesis
    proof (cases "createCursor (msg_id msg) (msg_color msg) s")
      case (Inl e)
      then show ?thesis using move None assms by (simp add: handleMessage_def)
    next
      case (Inr p)
      obtain c0 s1 where p: "p = (c0, s1)" by (cases p)
      note r = createCursor_result [OF Inr [unfolded p]]
      have w: "well_formed (s1\<lparr>cursors := cursors s1 @ [(msg_id msg, c0)]\<rparr>)"
        using well_formed_created [OF assms None Inr [unfolded p]] .
      have m: "map_of (cursors (s1\<lparr>cursors := cursors s1 @ [(msg_id msg, c0)]\<rparr>)) (msg_id msg)
                = Some c0"
        using None r map_of_append_new [of "cursors s" "msg_id msg" c0]
        by (simp del: map_of_append)
      from well_formed_refresh [OF w m]
      show ?thesis using move None Inr p assms by (simp add: handleMessage_def)
    qed
  qed
qed

lemma well_formed_frame:
  assumes "cursors s' = cursors s" and "surface s' = surface s"
    and "own_cursor s' = own_cursor s" and "next_node s' = next_node s"
  shows "well_formed s' = well_formed s"
  by (simp add: well_formed_def assms)

lemma well_formed_timer_fired: "well_formed s \<Longrightarrow> well_formed (timer_fired h now s)"
proof -
  assume w: "well_formed s"
  have "well_formed (s\<lparr>timers := ts, tid := None\<rparr>)" for ts
    using w well_formed_frame [of "s\<lparr>timers := ts, tid := None\<rparr>" s] by simp
  then show ?thesis using w by (simp add: timer_fired_def well_formed_invalidateCursors)
qed

lemma well_formed_on_connect: "well_formed (on_connect s) = well_formed s"
  by (rule well_formed_frame) (simp_all add: on_connect_def start_def)

lemma well_formed_on_disconnect: "well_formed s \<Longrightarrow> well_formed (snd (on_disconnect s))"
proof -
  assume w: "well_formed s"
  then have "own_cursor s = None" by (simp add: well_formed_def)
  then have "snd (on_disconnect s) = s\<lparr>connected := False, listening := False\<rparr>"
    by (simp add: on_disconnect_def stop_def Let_def)
  then show ?thesis
    using w well_formed_frame [of "s\<lparr>connected := False, listening := False\<rparr>" s] by simp
qed

lemma well_formed_mousemove: "well_formed (snd (mousemove pg e s)) = well_formed s"
  by (rule well_formed_frame)
     (simp_all add: mousemove_def handleMove_def
        split: list.splits option.splits prod.splits sum.splits)

lemma well_formed_react: "well_formed s \<Longrightarrow> well_formed (react e s)"
  by (cases e)
     (simp_all add: well_formed_handleMessage well_formed_timer_fired well_formed_on_connect
        well_formed_on_disconnect well_formed_mousemove)

lemma well_formed_run: "well_formed s \<Longrightarrow> well_formed (run evs s)"
  by (induction evs arbitrary: s) (auto simp add: well_formed_react)

lemma well_formed_constructor: "well_formed (constructor uid col)"
  by (simp add: well_formed_def constructor_def)

text \<open>
  C10. Let the entry of \<open>k\<close> be undecoded (absent, or present with \<open>deadline\<close> unset), and
  let no event that follows be a move message of \<open>k\<close> whose address resolves. Then the
  entry is undecoded after these events, whatever they are and whenever they happen; and
  an entry that was present is not expired at any time, is still in the store, unchanged,
  after all of them, and (the state being well formed, as every reachable state is) its
  marker is still on the surface.
\<close>

theorem never_decoded_entry_stays:
  assumes "undecoded k s" and "list_all (\<lambda>e. \<not> decodes_for k e) evs"
  shows "undecoded k (run evs s)
   \<and> (\<forall>c. map_of (cursors s) k = Some c \<longrightarrow>
         (\<forall>now. \<not> expired now c)
         \<and> map_of (cursors (run evs s)) k = Some c
         \<and> (well_formed s \<longrightarrow>
              map_option elem_id (map_of (surface (run evs s)) (el c)) = Some (''cursor-'' @ k)))"
proof (intro conjI allI impI)
  show "undecoded k (run evs s)" using assms by (rule run_undecoded)
next
  fix c now
  assume c: "map_of (cursors s) k = Some c"
  then have d: "deadline c = None" using assms(1) by (simp add: undecoded_def)
  then show "\<not> expired now c" by (rule not_expired_unset)
  show stay: "map_of (cursors (run evs s)) k = Some c"
    using c d assms(2) by (rule run_keeps_undecoded)
  assume "well_formed s"
  then have "well_formed (run evs s)" by (rule well_formed_run)
  moreover have "(k, c) \<in> set (cursors (run evs s))" using stay by (rule map_of_SomeD)
  ultimately show "map_option elem_id (map_of (surface (run evs s)) (el c)) = Some (''cursor-'' @ k)"
    by (auto simp add: well_formed_def list_all_iff)
qed

theorem never_decoded_entry_stays_witness:
  "map_of (cursors (run quiet_trace unseen_widget)) ''u1''
     = Some \<lparr>cursor_id = ''u1'', el = 0, deadline = None\<rparr>
   \<and> \<not> expired 10000 \<lparr>cursor_id = ''u1'', el = 0, deadline = None\<rparr>
   \<and> map_option elem_id (map_of (surface (run quiet_trace unseen_widget)) 0) = Some ''cursor-u1''"
proof -
  have c: "map_of (cursors unseen_widget) ''u1''
      = Some \<lparr>cursor_id = ''u1'', el = 0, deadline = None\<rparr>"
    by code_simp
  have u: "undecoded ''u1'' unseen_widget" using c by (simp add: undecoded_def)
  have t: "list_all (\<lambda>e. \<not> decodes_for ''u1'' e) quiet_trace" by code_simp
  have w: "well_formed unseen_widget" by code_simp
  show ?thesis
    using never_decoded_entry_stays [OF u t] c w by simp
qed

section \<open>Further facts about the handlers\<close>

lemma map_of_filter_drop:
  "distinct (map fst cs) \<Longrightarrow> map_of cs k = Some c \<Longrightarrow> \<not> P (k, c) \<Longrightarrow>
   map_of (filter P cs) k = None"
  by (induction cs) (auto simp add: map_of_eq_None_iff image_iff split: if_splits)

text \<open>
  An entry whose \<open>deadline\<close> is set is swept as the threshold says: more than 2000 ms
  after the deadline the sweep deletes it and removes its marker, and up to 2000 ms
  after it the sweep keeps it.
\<close>

lemma stale_entry_removed:
  assumes "well_formed s" and "map_of (cursors s) k = Some c" and "deadline c = Some t"
    and "2000 < now - t"
  shows "map_of (cursors (invalidateCursors now s)) k = None
   \<and> el c \<notin> set (map fst (surface (invalidateCursors now s)))"
proof -
  have e: "expired now c" using assms(3,4) by (simp add: expired_def)
  have d: "distinct (map fst (cursors s))" using assms(1) by (simp add: well_formed_def)
  have "map_of (filter (\<lambda>(k, c). \<not> expired now c) (cursors s)) k = None"
    using map_of_filter_drop [OF d assms(2), of "\<lambda>(k, c). \<not> expired now c"] e by simp
  moreover have "el c \<notin> set (map fst (surface (invalidateCursors now s)))"
  proof -
    define E where "E = set (map (el \<circ> snd) (filter (\<lambda>(k, c). expired now c) (cursors s)))"
    have "(k, c) \<in> set (cursors s)" using assms(2) by (rule map_of_SomeD)
    then have "el c \<in> E" using e by (force simp add: E_def)
    moreover have "surface (invalidateCursors now s) = filter (\<lambda>(h, m). h \<notin> E) (surface s)"
      by (simp add: surface_invalidateCursors sweep_surface E_def)
    ultimately show ?thesis by auto
  qed
  ultimately show ?thesis by (simp add: cursors_invalidateCursors)
qed

lemma fresh_entry_kept:
  assumes "map_of (cursors s) k = Some c" and "deadline c = Some t" and "now - t \<le> 2000"
  shows "map_of (cursors (invalidateCursors now s)) k = Some c"
  using assms
  by (auto simp add: cursors_invalidateCursors expired_def intro!: map_of_filter_keep)

text \<open>
  When pathLocator throws, the handler ends at the throw: an entry that existed is left
  as it was, a new one has been created already, and no sweep runs.
\<close>

lemma undecodable_move_throws:
  assumes "msg_event msg = ''move''"
    and "pathLocator (doc pg) (loc_path (msg_location msg)) = Inl e"
  shows "(map_of (cursors s) (msg_id msg) = Some c \<longrightarrow>
            handleMessage pg now msg s = (Some e, s))
   \<and> (map_of (cursors s) (msg_id msg) = None \<and> msg_id msg \<notin> set object_prototype_keys
        \<and> rendered s \<longrightarrow>
            fst (handleMessage pg now msg s) = Some e
            \<and> length (cursors (snd (handleMessage pg now msg s))) = Suc (length (cursors s)))"
  using assms
  by (auto simp add: handleMessage_def refresh_def createCursor_def keepalive_def Let_def)

text \<open>
  The handler of the disconnect event never touches the store; it detaches the listener,
  after which a mousemove is not handled, and throws as long as \<open>_cursor\<close> is unassigned.
\<close>

lemma on_disconnect_store:
  "cursors (snd (on_disconnect s)) = cursors s
   \<and> \<not> listening (snd (on_disconnect s)) \<and> \<not> connected (snd (on_disconnect s))
   \<and> (own_cursor s = None \<longrightarrow> fst (on_disconnect s) = Some TypeError)"
  by (simp add: on_disconnect_def stop_def Let_def split: option.splits)

lemma mousemove_detached: "\<not> listening s \<Longrightarrow> mousemove pg e s = (None, s)"
  by (simp add: mousemove_def)

text \<open>Every state an attached widget reaches by reacting to events is well formed.\<close>

lemma well_formed_reachable:
  "well_formed (run evs (firstUpdated (connectedCallback (constructor uid col))))"
proof -
  have "well_formed (firstUpdated (connectedCallback (constructor uid col)))"
    by (simp add: well_formed_def firstUpdated_def connectedCallback_def constructor_def)
  then show ?thesis by (rule well_formed_run)
qed

section \<open>A move message whose address finds no element\<close>

text \<open>
  The sweep removes the markers of the expired entries and no other: in a well-formed
  state the marker of an entry that is not expired is on the surface after the sweep as
  it was before.
\<close>

lemma marker_survives_sweep:
  assumes "well_formed s" and "(k, c) \<in> set (cursors s)" and "\<not> expired now c"
  shows "map_of (surface (invalidateCursors now s)) (el c) = map_of (surface s) (el c)"
proof -
  define E where "E = set (map (el \<circ> snd) (filter (\<lambda>(k, c). expired now c) (cursors s)))"
  have sf: "surface (invalidateCursors now s) = filter (\<lambda>(h, m). h \<notin> E) (surface s)"
    by (simp add: surface_invalidateCursors sweep_surface E_def)
  have "el c \<notin> E"
  proof
    assume "el c \<in> E"
    then obtain k' c' where "(k', c') \<in> set (cursors s)" "expired now c'" "el c = el c'"
      by (auto simp add: E_def)
    with well_formed_same_handle [OF assms(1,2) this(1)] assms(3) show False by simp
  qed
  then show ?thesis by (simp add: sf map_of_filter_fst)
qed

lemma marker_of_entry:
  assumes "well_formed s" and "(k, c) \<in> set (cursors s)"
  shows "\<exists>m. map_of (surface s) (el c) = Some m \<and> elem_id m = ''cursor-'' @ k"
  using assms by (auto simp add: well_formed_def list_all_iff)

lemma fresh_handle_unused:
  assumes "well_formed s"
  shows "map_of (surface s) (next_node s) = None"
proof -
  have "\<forall>h \<in> set (map fst (surface s)). h < next_node s"
    using assms by (simp add: well_formed_def handles_below)
  then have "next_node s \<notin> fst ` set (surface s)" by auto
  then show ?thesis by (simp add: map_of_eq_None_iff)
qed

text \<open>
  C2, as the code has it. Take a move message whose address finds no element. If the
  store holds an entry for the sender, the handler does nothing but the sweep: no marker
  is added or moved, and the entry, unless the sweep removes it as expired, is left as it
  was, its marker on the surface with the transform it had. If the store holds none (the
  id is no property name of Object.prototype and the template is rendered), the entry
  and its marker are created before the address is resolved: the entry, with
  \<open>deadline\<close> unset, is in the store after the handler, which then holds one entry more
  than the unexpired entries it held before; the new marker is on the surface,
  unpositioned, and it is the only new one; the entry refers to a marker on the surface
  that carries its id; and the markers of the unexpired entries are as they were. The
  facts about markers being on the surface are those of a well-formed state, as every
  state the widget reaches is.
\<close>

theorem undecodable_move:
  assumes "msg_event msg = ''move''"
    and "pathLocator (doc pg) (loc_path (msg_location msg)) = Inr None"
  shows
    "(map_of (cursors s) (msg_id msg) = Some c \<longrightarrow>
        handleMessage pg now msg s = (None, invalidateCursors now s)
        \<and> set (surface (snd (handleMessage pg now msg s))) \<subseteq> set (surface s)
        \<and> (\<not> expired now c \<longrightarrow>
             map_of (cursors (snd (handleMessage pg now msg s))) (msg_id msg) = Some c
             \<and> (well_formed s \<longrightarrow>
                  (\<exists>m. map_of (surface s) (el c) = Some m
                       \<and> map_of (surface (snd (handleMessage pg now msg s))) (el c) = Some m
                       \<and> elem_id m = ''cursor-'' @ msg_id msg))))
   \<and> (map_of (cursors s) (msg_id msg) = None \<and> msg_id msg \<notin> set object_prototype_keys
        \<and> rendered s \<longrightarrow>
        fst (handleMessage pg now msg s) = None
        \<and> (\<exists>h. map_of (cursors (snd (handleMessage pg now msg s))) (msg_id msg)
                 = Some \<lparr>cursor_id = msg_id msg, el = h, deadline = None\<rparr>)
        \<and> length (cursors (snd (handleMessage pg now msg s)))
            = Suc (length (filter (\<lambda>(k, c). \<not> expired now c) (cursors s)))
        \<and> set (surface (snd (handleMessage pg now msg s)))
            \<subseteq> set (surface s) \<union>
               {(next_node s,
                 \<lparr>elem_id = ''cursor-'' @ msg_id msg, elem_color = msg_color msg,
                  transform = None\<rparr>)}
        \<and> (well_formed s \<longrightarrow>
             map_of (surface (snd (handleMessage pg now msg s))) (next_node s)
               = Some \<lparr>elem_id = ''cursor-'' @ msg_id msg, elem_color = msg_color msg,
                       transform = None\<rparr>
             \<and> (\<exists>h m. map_of (cursors (snd (handleMessage pg now msg s))) (msg_id msg)
                         = Some \<lparr>cursor_id = msg_id msg, el = h, deadline = None\<rparr>
                      \<and> map_of (surface (snd (handleMessage pg now msg s))) h = Some m
                      \<and> elem_id m = ''cursor-'' @ msg_id msg)
             \<and> (\<forall>k c'. map_of (cursors s) k = Some c' \<and> \<not> expired now c' \<longrightarrow>
                    map_of (surface (snd (handleMessage pg now msg s))) (el c')
                      = map_of (surface s) (el c'))))"
proof (intro conjI impI)
  assume old: "map_of (cursors s) (msg_id msg) = Some c"
  show eq: "handleMessage pg now msg s = (None, invalidateCursors now s)"
    using assms old
    by (simp add: handleMessage_def refresh_def keepalive_not_found assign_same)
  show "set (surface (snd (handleMessage pg now msg s))) \<subseteq> set (surface s)"
    by (simp add: eq surface_invalidateCursors sweep_surface_subset)
  assume ne: "\<not> expired now c"
  show "map_of (cursors (snd (handleMessage pg now msg s))) (msg_id msg) = Some c"
    using ne old by (simp add: eq cursors_invalidateCursors map_of_filter_keep)
  assume w: "well_formed s"
  have mem: "(msg_id msg, c) \<in> set (cursors s)" using old by (rule map_of_SomeD)
  from marker_of_entry [OF w mem]
  obtain m where m: "map_of (surface s) (el c) = Some m" "elem_id m = ''cursor-'' @ msg_id msg"
    by blast
  have "map_of (surface (snd (handleMessage pg now msg s))) (el c) = Some m"
    using marker_survives_sweep [OF w mem ne] m(1) by (simp add: eq)
  with m show "\<exists>m. map_of (surface s) (el c) = Some m
                  \<and> map_of (surface (snd (handleMessage pg now msg s))) (el c) = Some m
                  \<and> elem_id m = ''cursor-'' @ msg_id msg"
    by blast
next
  assume new: "map_of (cursors s) (msg_id msg) = None \<and> msg_id msg \<notin> set object_prototype_keys
        \<and> rendered s"
  define mk where "mk = \<lparr>elem_id = ''cursor-'' @ msg_id msg, elem_color = msg_color msg,
                  transform = None\<rparr>"
  define h where "h = (case find (\<lambda>(k, m). elem_id m = ''cursor-'' @ msg_id msg)
                         (surface s @ [(next_node s, mk)]) of
                       Some (k, m) \<Rightarrow> k | None \<Rightarrow> next_node s)"
  define c0 where "c0 = \<lparr>cursor_id = msg_id msg, el = h, deadline = None\<rparr>"
  define s0 where "s0 = s\<lparr>surface := surface s @ [(next_node s, mk)],
                          next_node := Suc (next_node s)\<rparr>"
  define s1 where "s1 = s0\<lparr>cursors := cursors s0 @ [(msg_id msg, c0)]\<rparr>"
  have cr: "createCursor (msg_id msg) (msg_color msg) s = Inr (c0, s0)"
    using new by (simp add: createCursor_def Let_def mk_def h_def c0_def s0_def)
  have cs1: "cursors s1 = cursors s @ [(msg_id msg, c0)]"
    and sf1: "surface s1 = surface s @ [(next_node s, mk)]"
    by (simp_all add: s1_def s0_def)
  have eq: "handleMessage pg now msg s = (None, invalidateCursors now s1)"
    using assms new cr
    by (simp add: handleMessage_def refresh_def keepalive_not_found assign_new s1_def s0_def)
  have c0: "\<not> expired now c0" by (simp add: expired_def c0_def)
  show "fst (handleMessage pg now msg s) = None" by (simp add: eq)
  have in1: "map_of (cursors s1) (msg_id msg) = Some c0"
    using new map_of_append_new [of "cursors s" "msg_id msg" c0]
    by (simp add: cs1 del: map_of_append)
  then have after: "map_of (cursors (snd (handleMessage pg now msg s))) (msg_id msg) = Some c0"
    using c0 by (simp add: eq cursors_invalidateCursors map_of_filter_keep)
  then show "\<exists>h. map_of (cursors (snd (handleMessage pg now msg s))) (msg_id msg)
                 = Some \<lparr>cursor_id = msg_id msg, el = h, deadline = None\<rparr>"
    by (auto simp add: c0_def)
  show "length (cursors (snd (handleMessage pg now msg s)))
            = Suc (length (filter (\<lambda>(k, c). \<not> expired now c) (cursors s)))"
    using c0 by (simp add: eq cursors_invalidateCursors cs1)
  have "set (surface (invalidateCursors now s1)) \<subseteq> set (surface s1)"
    by (simp add: surface_invalidateCursors sweep_surface_subset)
  then show "set (surface (snd (handleMessage pg now msg s)))
            \<subseteq> set (surface s) \<union>
               {(next_node s,
                 \<lparr>elem_id = ''cursor-'' @ msg_id msg, elem_color = msg_color msg,
                  transform = None\<rparr>)}"
    by (auto simp add: eq sf1 mk_def)
  assume w: "well_formed s"
  have none: "map_of (cursors s) (msg_id msg) = None" using new by simp
  have w1: "well_formed s1"
    unfolding s1_def using w none cr by (rule well_formed_created)
  have fresh: "map_of (surface s) (next_node s) = None"
    using w by (rule fresh_handle_unused)
  (* the marker of an entry that was in the store is untouched by the append *)
  have app: "map_of (surface s1) (el c') = map_of (surface s) (el c')"
    if "(k, c') \<in> set (cursors s)" for k c'
  proof -
    from marker_of_entry [OF w that]
    obtain m where "map_of (surface s) (el c') = Some m" by blast
    then show ?thesis by (simp add: sf1 map_add_def)
  qed
  (* the new marker: no expired entry refers to the fresh handle *)
  define E where "E = set (map (el \<circ> snd) (filter (\<lambda>(k, c). expired now c) (cursors s1)))"
  have sf: "surface (invalidateCursors now s1) = filter (\<lambda>(h, m). h \<notin> E) (surface s1)"
    by (simp add: surface_invalidateCursors sweep_surface E_def)
  have "next_node s \<notin> E"
  proof
    assume "next_node s \<in> E"
    then obtain k' c' where kc: "(k', c') \<in> set (cursors s1)" "expired now c'"
      "el c' = next_node s"
      by (auto simp add: E_def)
    then have "(k', c') \<in> set (cursors s)" using c0 by (auto simp add: cs1)
    from marker_of_entry [OF w this] kc(3) fresh show False by simp
  qed
  moreover have "map_of (surface s1) (next_node s) = Some mk"
    using fresh by (simp add: sf1 map_add_def)
  ultimately have "map_of (surface (invalidateCursors now s1)) (next_node s) = Some mk"
    by (simp add: sf map_of_filter_fst)
  then show "map_of (surface (snd (handleMessage pg now msg s))) (next_node s)
               = Some \<lparr>elem_id = ''cursor-'' @ msg_id msg, elem_color = msg_color msg,
                       transform = None\<rparr>"
    by (simp add: eq mk_def)
  (* the marker the new entry refers to *)
  have w2: "well_formed (invalidateCursors now s1)"
    using w1 by (rule well_formed_invalidateCursors)
  have "(msg_id msg, c0) \<in> set (cursors (invalidateCursors now s1))"
    using after by (simp add: eq map_of_SomeD)
  from marker_of_entry [OF w2 this]
  obtain m where "map_of (surface (invalidateCursors now s1)) (el c0) = Some m"
    "elem_id m = ''cursor-'' @ msg_id msg" by blast
  then show "\<exists>h m. map_of (cursors (snd (handleMessage pg now msg s))) (msg_id msg)
                         = Some \<lparr>cursor_id = msg_id msg, el = h, deadline = None\<rparr>
                      \<and> map_of (surface (snd (handleMessage pg now msg s))) h = Some m
                      \<and> elem_id m = ''cursor-'' @ msg_id msg"
    using after by (auto simp add: eq c0_def)
  show "\<forall>k c'. map_of (cursors s) k = Some c' \<and> \<not> expired now c' \<longrightarrow>
                    map_of (surface (snd (handleMessage pg now msg s))) (el c')
                      = map_of (surface s) (el c')"
  proof (intro allI impI)
    fix k c'
    assume a: "map_of (cursors s) k = Some c' \<and> \<not> expired now c'"
    then have mem: "(k, c') \<in> set (cursors s)" by (simp add: map_of_SomeD)
    then have "(k, c') \<in> set (cursors s1)" by (simp add: cs1)
    from marker_survives_sweep [OF w1 this] a app [OF mem]
    show "map_of (surface (snd (handleMessage pg now msg s))) (el c')
            = map_of (surface s) (el c')"
      by (simp add: eq)
  qed
qed

theorem undecodable_move_witness:
  "length (cursors (snd (handleMessage example_page 0 (move_to ''u1'' ''html > body > p'')
                           example_widget))) = 1
   \<and> map_of (surface (snd (handleMessage example_page 0 (move_to ''u1'' ''html > body > p'')
                             example_widget))) 0
       = Some \<lparr>elem_id = ''cursor-u1'', elem_color = ''blue'', transform = None\<rparr>
   \<and> handleMessage example_page 100 (move_to ''u1'' ''html > body > p'') seen_widget
       = (None, invalidateCursors 100 seen_widget)
   \<and> map_of (cursors (snd (handleMessage example_page 100 (move_to ''u1'' ''html > body > p'')
                             seen_widget))) ''u1''
       = Some \<lparr>cursor_id = ''u1'', el = 0, deadline = Some 0\<rparr>
   \<and> map_of (surface (snd (handleMessage example_page 100 (move_to ''u1'' ''html > body > p'')
                             seen_widget))) 0
       = Some \<lparr>elem_id = ''cursor-u1'', elem_color = ''blue'', transform = Some (11, 22)\<rparr>"
proof -
  let ?m = "move_to ''u1'' ''html > body > p''"
  let ?c = "\<lparr>cursor_id = ''u1'', el = 0, deadline = Some 0\<rparr>"
  have ev: "msg_event ?m = ''move''" by (simp add: move_to_def)
  have nf: "pathLocator (doc example_page) (loc_path (msg_location ?m)) = Inr None"
    by code_simp
  have i: "msg_id ?m = ''u1''" "msg_color ?m = ''blue''" by (simp_all add: move_to_def)
  have new: "map_of (cursors example_widget) ''u1'' = None"
    "''u1'' \<notin> set object_prototype_keys" "rendered example_widget"
    "cursors example_widget = []" "next_node example_widget = 0"
    by (simp_all add: example_widget_def attached_widget_def on_connect_def start_def
          firstUpdated_def connectedCallback_def constructor_def object_prototype_keys_def)
  have w0: "well_formed example_widget" by code_simp
  have old: "map_of (cursors seen_widget) ''u1'' = Some ?c"
    by code_simp
  have w1: "well_formed seen_widget" by code_simp
  have sf: "map_of (surface seen_widget) 0
      = Some \<lparr>elem_id = ''cursor-u1'', elem_color = ''blue'', transform = Some (11, 22)\<rparr>"
    by code_simp
  have ne: "\<not> expired 100 ?c"
    by (simp add: expired_def)
  have n: "length (cursors (snd (handleMessage example_page 0 ?m example_widget))) = 1
     \<and> map_of (surface (snd (handleMessage example_page 0 ?m example_widget))) 0
       = Some \<lparr>elem_id = ''cursor-u1'', elem_color = ''blue'', transform = None\<rparr>"
    using undecodable_move [OF ev nf, where s = example_widget and now = 0] new w0
    by (simp add: i)
  have o: "handleMessage example_page 100 ?m seen_widget
             = (None, invalidateCursors 100 seen_widget)
           \<and> map_of (cursors (snd (handleMessage example_page 100 ?m seen_widget))) ''u1''
             = Some ?c
           \<and> (\<exists>m. map_of (surface seen_widget) (el ?c) = Some m
                \<and> map_of (surface (snd (handleMessage example_page 100 ?m seen_widget))) (el ?c)
                    = Some m)"
    using undecodable_move [OF ev nf, where s = seen_widget and now = 100 and c = ?c]
          old ne w1
    unfolding i by blast
  then have "map_of (surface (snd (handleMessage example_page 100 ?m seen_widget))) 0
       = Some \<lparr>elem_id = ''cursor-u1'', elem_color = ''blue'', transform = Some (11, 22)\<rparr>"
    using sf by auto
  with n o show ?thesis by blast
qed

text \<open>
  A move message of an unseen sender whose address finds no element: the store grows
  from no entry to one, against C2 as the specification words it.
\<close>

theorem undecodable_move_counterexample:
  "pathLocator (doc example_page) (Str ''html > body > p'') = Inr None
   \<and> map fst (cursors example_widget) = []
   \<and> map fst (cursors (snd (handleMessage example_page 0 (move_to ''u1'' ''html > body > p'')
                              example_widget))) = [''u1'']"
  by code_simp

end
